theory Spec2Isabelle
  imports Main "HOL-Library.Multiset"
begin

section \<open>JavaScript values, errors and objects\<close>

text \<open>
  The sources are TypeScript run by Node. The type annotations are erased at run time, and
  the regression suite calls \<open>safeParse\<close> with numbers, \<open>null\<close> and \<open>undefined\<close>, so values are
  modelled dynamically. Numbers are restricted to the integers (the only number the sources
  use is \<open>123\<close>).

  An exception is an Error object: the name of its class and its message. The \<open>catch\<close>
  clause of \<open>safeParse\<close> declares the caught value to be such an object
  (\<open>error as ParseError\<close>), and every \<open>throw\<close> and \<open>assert\<close> of the sources raises one.
  A computation that may throw has the type \<open>js_error + 'a\<close>, with \<open>Inl\<close> the thrown error.
\<close>

datatype js_error = JsError (error_name: string) (error_message: string)

datatype jsval =
    JUndefined
  | JNull
  | JBoolean bool
  | JNumber int
  | JString string
  | JError js_error
  | JObject "(string \<times> jsval) list"

type_synonym jsobject = "(string \<times> jsval) list"

text \<open>\<open>new ParseError(message)\<close> and the \<open>AssertionError\<close> that \<open>node:assert\<close> raises.\<close>

definition ParseError :: "string \<Rightarrow> js_error" where
  "ParseError msg = JsError ''ParseError'' msg"

definition AssertionError :: "string \<Rightarrow> js_error" where
  "AssertionError msg = JsError ''AssertionError'' msg"

text \<open>JavaScript's truthiness, which \<open>!parsed\<close> and \<open>assert(value, message)\<close> test.\<close>

fun truthy :: "jsval \<Rightarrow> bool" where
  "truthy JUndefined = False"
| "truthy JNull = False"
| "truthy (JBoolean b) = b"
| "truthy (JNumber n) = (n \<noteq> 0)"
| "truthy (JString s) = (s \<noteq> [])"
| "truthy (JError e) = True"
| "truthy (JObject props) = True"

text \<open>
  Reading the property \<open>name\<close> of an object literal: the value stored under that key, and
  \<open>undefined\<close> when the object has no such key.
\<close>

definition get_prop :: "jsobject \<Rightarrow> string \<Rightarrow> jsval" where
  "get_prop obj name = (case map_of obj name of Some v \<Rightarrow> v | None \<Rightarrow> JUndefined)"

text \<open>\<open>value !== null\<close>.\<close>

fun non_null :: "jsval \<Rightarrow> bool" where
  "non_null JNull = False"
| "non_null _ = True"


section \<open>src/lib/url-parse.ts\<close>

text \<open>
  In \<open>parseUrl\<close> the expression that computes \<open>parsed\<close> is left out of the source
  (\<open>/* logic to parse the URL with tldts-experimental */\<close>): it is the call into the
  external library. It is a parameter of the model, a function from the input value to
  either a thrown error or the value bound to \<open>parsed\<close>. \<open>parseUrl\<close> itself checks nothing
  about its input (the comment before the call, \<open>// Add proper validation for URL format\<close>,
  marks validation as still to be added): its one test is \<open>!parsed\<close>.
\<close>

type_synonym parser = "jsval \<Rightarrow> js_error + jsval"

definition parseUrl :: "parser \<Rightarrow> jsval \<Rightarrow> js_error + jsval" where
  "parseUrl tldts url =
     (case tldts url of
        Inl thrown \<Rightarrow> Inl thrown
      | Inr parsed \<Rightarrow>
          if \<not> truthy parsed then Inl (ParseError ''Invalid URL'')
          else Inr parsed)"

text \<open>
  \<open>safeParse\<close> is itself a computation that could throw, so that "it never throws" is a
  statement about its value. The \<open>try\<close> block returns \<open>{result, error: null}\<close>, the \<open>catch\<close>
  block \<open>{result: null, error}\<close>.
\<close>

definition safeParse :: "parser \<Rightarrow> jsval \<Rightarrow> js_error + jsobject" where
  "safeParse tldts url =
     (case parseUrl tldts url of
        Inr result \<Rightarrow> Inr [(''result'', result), (''error'', JNull)]
      | Inl error \<Rightarrow> Inr [(''result'', JNull), (''error'', JError error)])"


section \<open>src/test/helpers.ts\<close>

subsection \<open>isSpecFile\<close>

text \<open>
  \<open>isSpecFile\<close> compares \<open>path.extname(file)\<close> with \<open>SPEC_FILE_EXTENSION\<close>. \<open>path.extname\<close>
  belongs to Node's standard library, not to this repository. The definition below
  follows Node's POSIX implementation of it: one pass over the path from its last
  character to its first, which skips trailing slashes, stops at the slash before the
  last path component, and records where the last dot of that component is
  (\<open>startDot\<close>), where the component ends (\<open>end\<close>, here \<open>end_pos\<close>) and whether anything
  other than dots stands before that dot (\<open>preDotState\<close>). The five variables of the pass
  are the fields of the loop state; \<open>- 1\<close> means "not seen yet", as in Node.
\<close>

record extname_state =
  startDot :: int
  startPart :: int
  end_pos :: int
  matchedSlash :: bool
  preDotState :: int

text \<open>
  \<open>extname_loop path (Suc i) st\<close> is the loop body at index \<open>i\<close> followed by the rest of the
  loop; \<open>extname_loop path 0 st\<close> is the loop's exit. The first branch that does not
  recurse is the \<open>break\<close>.
\<close>

fun extname_loop :: "string \<Rightarrow> nat \<Rightarrow> extname_state \<Rightarrow> extname_state" where
  "extname_loop path 0 st = st"
| "extname_loop path (Suc i) st =
     (let code = path ! i in
      if code = CHR ''/'' then
        (if \<not> matchedSlash st then st\<lparr>startPart := int i + 1\<rparr>
         else extname_loop path i st)
      else
        (let st1 = (if end_pos st = - 1
                    then st\<lparr>matchedSlash := False, end_pos := int i + 1\<rparr>
                    else st);
             st2 = (if code = CHR ''.'' then
                      (if startDot st1 = - 1 then st1\<lparr>startDot := int i\<rparr>
                       else if preDotState st1 \<noteq> 1 then st1\<lparr>preDotState := 1\<rparr>
                       else st1)
                    else if startDot st1 \<noteq> - 1 then st1\<lparr>preDotState := - 1\<rparr>
                    else st1)
         in extname_loop path i st2))"

text \<open>\<open>s.slice(from, to)\<close> for \<open>0 \<le> from\<close> and \<open>0 \<le> to\<close>.\<close>

definition slice :: "string \<Rightarrow> nat \<Rightarrow> nat \<Rightarrow> string" where
  "slice s from to = take (to - from) (drop from s)"

definition extname :: "string \<Rightarrow> string" where
  "extname path =
     (let st = extname_loop path (length path)
                 \<lparr>startDot = - 1, startPart = 0, end_pos = - 1,
                  matchedSlash = True, preDotState = 0\<rparr>
      in if startDot st = - 1 \<or> end_pos st = - 1 \<or> preDotState st = 0
            \<or> (preDotState st = 1 \<and> startDot st = end_pos st - 1
                \<and> startDot st = startPart st + 1)
         then ''''
         else slice path (nat (startDot st)) (nat (end_pos st)))"

definition SPEC_FILE_EXTENSION :: string where
  "SPEC_FILE_EXTENSION = ''.eno''"

definition isSpecFile :: "string \<Rightarrow> bool" where
  "isSpecFile file = (extname file = SPEC_FILE_EXTENSION)"

subsection \<open>assertUrl\<close>

text \<open>\<open>assert(value, message)\<close> of \<open>node:assert/strict\<close>: it throws unless \<open>value\<close> is truthy.\<close>

definition assert_ok :: "jsval \<Rightarrow> string \<Rightarrow> js_error + unit" where
  "assert_ok v msg = (if truthy v then Inr () else Inl (AssertionError msg))"

text \<open>\<open>s.startsWith(p)\<close>.\<close>

definition startsWith :: "string \<Rightarrow> string \<Rightarrow> bool" where
  "startsWith s p = (take (length p) s = p)"

text \<open>
  \<open>assertUrl\<close> reads \<open>isValid\<close> from the object \<open>safeParse\<close> returned. Both messages are
  template literals whose \<open>$\<close> is escaped, so they hold the text \<open>${url}\<close> itself.
\<close>

definition assertUrl :: "parser \<Rightarrow> string \<Rightarrow> js_error + unit" where
  "assertUrl tldts url =
     (case safeParse tldts (JString url) of
        Inl thrown \<Rightarrow> Inl thrown
      | Inr parsed \<Rightarrow>
          (case assert_ok (get_prop parsed ''isValid'')
                  ''${url} is not a valid url or website is not public'' of
             Inl thrown \<Rightarrow> Inl thrown
           | Inr u \<Rightarrow>
               assert_ok (JBoolean (startsWith url ''http''))
                 ''${url} does not start with http''))"

subsection \<open>partition\<close>

text \<open>
  The \<open>for\<close> loop of \<open>partition\<close>, with the two arrays it pushes to as accumulators:
  \<open>push\<close> appends at the end.
\<close>

fun partition_loop :: "('a \<Rightarrow> bool) \<Rightarrow> 'a list \<Rightarrow> 'a list \<Rightarrow> 'a list \<Rightarrow> 'a list \<times> 'a list" where
  "partition_loop pred [] matches rest = (matches, rest)"
| "partition_loop pred (x # arr) matches rest =
     (if pred x then partition_loop pred arr (matches @ [x]) rest
      else partition_loop pred arr matches (rest @ [x]))"

definition partition_ts :: "'a list \<Rightarrow> ('a \<Rightarrow> bool) \<Rightarrow> 'a list \<times> 'a list" where
  "partition_ts arr pred = partition_loop pred arr [] []"


section \<open>Outcomes of safeParse and behaviours of the library call\<close>

text \<open>
  What "\<open>safeParse\<close> returns a \<open>ParseError\<close>" means: the call returns (it does not
  throw), the \<open>result\<close> field of the object is \<open>null\<close>, and its \<open>error\<close> field is an error
  object of class \<open>ParseError\<close>.
\<close>

definition returns_ParseError :: "js_error + jsobject \<Rightarrow> bool" where
  "returns_ParseError out =
     (case out of
        Inl thrown \<Rightarrow> False
      | Inr r \<Rightarrow>
          get_prop r ''result'' = JNull
          \<and> (case get_prop r ''error'' of
               JError e \<Rightarrow> error_name e = ''ParseError''
             | _ \<Rightarrow> False))"



definition lenient_library :: parser where
  "lenient_library input =
     Inr (JObject [(''url'', input), (''domain'', JNull), (''publicSuffix'', JNull),
                   (''isPrivate'', JBoolean False), (''isValid'', JBoolean False)])"


section \<open>Auxiliary definitions for the proofs about extname\<close>

text \<open>The index of the last dot of a string, if it has one.\<close>

fun last_dot :: "string \<Rightarrow> nat option" where
  "last_dot [] = None"
| "last_dot (c # cs) =
     (case last_dot cs of
        Some k \<Rightarrow> Some (Suc k)
      | None \<Rightarrow> if c = CHR ''.'' then Some 0 else None)"

text \<open>
  The invariant of the pass of \<open>extname\<close> over a path without slashes: the state once the
  indices from \<open>i\<close> to the end have been examined. Before the first character the state
  is the initial one; afterwards \<open>end\<close> is the length of the path, \<open>startDot\<close> is the last
  dot seen so far, and \<open>preDotState\<close> tells what the character examined last was when it
  stands before that dot.
\<close>

definition extname_inv :: "string \<Rightarrow> nat \<Rightarrow> extname_state \<Rightarrow> bool" where
  "extname_inv path i st =
     (startPart st = 0
      \<and> (if i = length path
          then end_pos st = - 1 \<and> matchedSlash st \<and> startDot st = - 1 \<and> preDotState st = 0
          else end_pos st = int (length path) \<and> \<not> matchedSlash st
               \<and> (case last_dot (drop i path) of
                     None \<Rightarrow> startDot st = - 1 \<and> preDotState st = 0
                   | Some k \<Rightarrow>
                       startDot st = int (i + k)
                       \<and> preDotState st =
                           (if k = 0 then 0 else if path ! i = CHR ''.'' then 1 else - 1))))"


section \<open>Properties of safeParse\<close>

lemma parseUrl_throws_or_truthy:
  "(\<exists>e. parseUrl tldts input = Inl e) \<or> (\<exists>v. parseUrl tldts input = Inr v \<and> truthy v)"
  by (simp add: parseUrl_def split: sum.split)

lemma truthy_non_null: "truthy v \<Longrightarrow> non_null v"
  by (cases v) simp_all




text \<open>
  C3. For every library parser and every input value, the object \<open>safeParse\<close> returns has
  the two fields \<open>result\<close> and \<open>error\<close>, and exactly one of them is non-null: either
  \<open>result\<close> is \<open>null\<close> and \<open>error\<close> is an error object, or \<open>result\<close> is a truthy value and
  \<open>error\<close> is \<open>null\<close>.
\<close>

theorem safeParse_exactly_one_non_null:
  "\<exists>r. safeParse tldts input = Inr r
       \<and> map fst r = [''result'', ''error'']
       \<and> non_null (get_prop r ''result'') \<noteq> non_null (get_prop r ''error'')
       \<and> (get_prop r ''result'' = JNull \<and> (\<exists>e. get_prop r ''error'' = JError e)
          \<or> truthy (get_prop r ''result'') \<and> get_prop r ''error'' = JNull)"
proof (cases "parseUrl tldts input")
  case (Inl e)
  then show ?thesis by (simp add: safeParse_def get_prop_def)
next
  case (Inr v)
  with parseUrl_throws_or_truthy [of tldts input] have "truthy v" by simp
  with Inr show ?thesis by (simp add: safeParse_def get_prop_def truthy_non_null)
qed

theorem safeParse_exactly_one_non_null_witness:
  "safeParse (\<lambda>v. Inr JNull) (JString ''example.com'') =
     Inr [(''result'', JNull), (''error'', JError (ParseError ''Invalid URL''))]
   \<and> non_null (get_prop [(''result'', JNull), (''error'', JError (ParseError ''Invalid URL''))]
         ''error'')"
  using safeParse_exactly_one_non_null [of "\<lambda>v. Inr JNull" "JString ''example.com''"]
  by (simp add: safeParse_def parseUrl_def get_prop_def)


section \<open>safeParse on malformed input\<close>

text \<open>
  \<open>parseUrl\<close> tests nothing but the truthiness of what the library call gave, so a result
  the library returns comes back from \<open>safeParse\<close> as it is, whatever the input was.
\<close>

lemma safeParse_passes_result_through:
  "tldts input = Inr parsed \<Longrightarrow> truthy parsed \<Longrightarrow>
     safeParse tldts input = Inr [(''result'', parsed), (''error'', JNull)]"
  by (simp add: safeParse_def parseUrl_def)

lemma safeParse_lenient_library:
  "safeParse lenient_library input =
     Inr [(''result'', JObject [(''url'', input), (''domain'', JNull), (''publicSuffix'', JNull),
                                (''isPrivate'', JBoolean False), (''isValid'', JBoolean False)]),
          (''error'', JNull)]"
  by (rule safeParse_passes_result_through) (simp_all add: lenient_library_def)

lemma lenient_library_no_error:
  "\<not> returns_ParseError (safeParse lenient_library input)"
  by (simp add: safeParse_lenient_library returns_ParseError_def get_prop_def)

text \<open>
  C4 (the code departs from the claim). With a library call that answers every input
  with a result object, \<open>safeParse\<close> returns \<open>ftp://example.com\<close> parsed, with \<open>error: null\<close>,
  and returns no \<open>ParseError\<close> on any of the malformed inputs: the empty string, the
  whitespace-only string, \<open>example.com\<close>, \<open>ftp://example.com\<close>, \<open>https://\<close> followed by 2100
  letters, \<open>123\<close>, \<open>null\<close> and \<open>undefined\<close>. No check of the input's type, content, scheme
  or length stands in the code.
\<close>

theorem safeParse_accepts_malformed_input:
  "safeParse lenient_library (JString ''ftp://example.com'') =
     Inr [(''result'', JObject [(''url'', JString ''ftp://example.com''), (''domain'', JNull),
            (''publicSuffix'', JNull), (''isPrivate'', JBoolean False),
            (''isValid'', JBoolean False)]),
          (''error'', JNull)]
   \<and> \<not> returns_ParseError (safeParse lenient_library (JString ''''))
   \<and> \<not> returns_ParseError (safeParse lenient_library (JString ''   ''))
   \<and> \<not> returns_ParseError (safeParse lenient_library (JString ''example.com''))
   \<and> \<not> returns_ParseError (safeParse lenient_library (JString ''ftp://example.com''))
   \<and> \<not> returns_ParseError
        (safeParse lenient_library (JString (''https://'' @ replicate 2100 CHR ''x'')))
   \<and> \<not> returns_ParseError (safeParse lenient_library (JNumber 123))
   \<and> \<not> returns_ParseError (safeParse lenient_library JNull)
   \<and> \<not> returns_ParseError (safeParse lenient_library JUndefined)"
  by (intro conjI safeParse_lenient_library lenient_library_no_error)


section \<open>Properties of assertUrl\<close>

text \<open>
  The object \<open>safeParse\<close> returns has no property \<open>isValid\<close> (that property belongs to the
  value of its \<open>result\<close> field), so the first assertion of \<open>assertUrl\<close> fails on every URL.
\<close>

lemma assertUrl_always_raises:
  "assertUrl tldts url =
     Inl (AssertionError ''${url} is not a valid url or website is not public'')"
  by (cases "parseUrl tldts (JString url)")
     (simp_all add: assertUrl_def safeParse_def get_prop_def assert_ok_def)

text \<open>
  C2 (the code departs from the claim). With a library that parses
  \<open>https://www.google.com\<close> to a result whose \<open>isValid\<close> is \<open>true\<close>, \<open>safeParse\<close> returns that
  result with \<open>error: null\<close>, and the URL starts with \<open>http\<close>: both conditions of the claim
  hold. \<open>assertUrl\<close> raises its first assertion failure all the same.
\<close>

theorem assertUrl_raises_on_valid_url:
  "safeParse (\<lambda>v. Inr (JObject [(''url'', v), (''domain'', JString ''google.com''),
        (''publicSuffix'', JString ''com''), (''isPrivate'', JBoolean False),
        (''isValid'', JBoolean True)])) (JString ''https://www.google.com'') =
     Inr [(''result'', JObject [(''url'', JString ''https://www.google.com''),
            (''domain'', JString ''google.com''), (''publicSuffix'', JString ''com''),
            (''isPrivate'', JBoolean False), (''isValid'', JBoolean True)]),
          (''error'', JNull)]
   \<and> startsWith ''https://www.google.com'' ''http''
   \<and> assertUrl (\<lambda>v. Inr (JObject [(''url'', v), (''domain'', JString ''google.com''),
        (''publicSuffix'', JString ''com''), (''isPrivate'', JBoolean False),
        (''isValid'', JBoolean True)])) ''https://www.google.com'' =
     Inl (AssertionError ''${url} is not a valid url or website is not public'')"
  by (simp add: safeParse_def parseUrl_def startsWith_def assertUrl_def get_prop_def assert_ok_def)


section \<open>Properties of isSpecFile\<close>

lemma extname_dotfile: "extname ''.eno'' = []"
  by code_simp

lemma extname_named_file: "extname ''advertising.eno'' = ''.eno''"
  by code_simp

lemma extname_in_directory: "extname ''db/categories/advertising.eno'' = ''.eno''"
  by code_simp

lemma extname_loop_inv:
  "CHR ''/'' \<notin> set path \<Longrightarrow> i \<le> length path \<Longrightarrow> extname_inv path i st
     \<Longrightarrow> extname_inv path 0 (extname_loop path i st)"
proof (induction i arbitrary: st)
  case 0
  then show ?case by simp
next
  case (Suc i)
  from Suc.prems have i: "i < length path" by simp
  then have noslash: "path ! i \<noteq> CHR ''/''" using Suc.prems(1) by (metis nth_mem)
  have dropi: "drop i path = path ! i # drop (Suc i) path"
    using i by (simp add: Cons_nth_drop_Suc)
  define st1 where "st1 = (if end_pos st = - 1
                    then st\<lparr>matchedSlash := False, end_pos := int i + 1\<rparr>
                    else st)"
  define st2 where "st2 = (if path ! i = CHR ''.'' then
                      (if startDot st1 = - 1 then st1\<lparr>startDot := int i\<rparr>
                       else if preDotState st1 \<noteq> 1 then st1\<lparr>preDotState := 1\<rparr>
                       else st1)
                    else if startDot st1 \<noteq> - 1 then st1\<lparr>preDotState := - 1\<rparr>
                    else st1)"
  have step: "extname_loop path (Suc i) st = extname_loop path i st2"
    using noslash by (simp add: st1_def st2_def Let_def)
  have "extname_inv path i st2"
  proof (cases "Suc i = length path")
    case True
    then have "drop (Suc i) path = []" by simp
    with Suc.prems(3) True i show ?thesis
      by (simp add: extname_inv_def st1_def st2_def dropi)
  next
    case False
    with i have "Suc i < length path" by simp
    with Suc.prems(3) False i show ?thesis
      by (cases "last_dot (drop (Suc i) path)")
         (simp_all add: extname_inv_def st1_def st2_def dropi)
  qed
  with Suc.IH [of st2] Suc.prems(1) i
  have "extname_inv path 0 (extname_loop path i st2)" by simp
  then show ?case by (simp only: step)
qed

lemma extname_closed_form:
  assumes "CHR ''/'' \<notin> set path"
  shows "extname path =
     (case last_dot path of
        None \<Rightarrow> []
      | Some k \<Rightarrow>
          if k = 0 \<or> (path ! 0 = CHR ''.'' \<and> k = 1 \<and> length path = 2) then []
          else drop k path)"
proof -
  define init where "init = \<lparr>startDot = - 1, startPart = 0, end_pos = - 1,
                  matchedSlash = True, preDotState = 0\<rparr>"
  define st where "st = extname_loop path (length path) init"
  have "extname_inv path (length path) init"
    by (simp add: extname_inv_def init_def)
  with assms have inv: "extname_inv path 0 st"
    unfolding st_def by (intro extname_loop_inv) simp_all
  have ext: "extname path = (if startDot st = - 1 \<or> end_pos st = - 1 \<or> preDotState st = 0
            \<or> (preDotState st = 1 \<and> startDot st = end_pos st - 1
                \<and> startDot st = startPart st + 1)
         then []
         else slice path (nat (startDot st)) (nat (end_pos st)))"
    by (simp add: extname_def st_def init_def Let_def)
  show ?thesis
  proof (cases "last_dot path")
    case None
    with inv show ?thesis
      unfolding ext by (cases "path = []") (simp_all add: extname_inv_def)
  next
    case (Some k)
    then have "path \<noteq> []" by auto
    with inv Some show ?thesis
      unfolding ext by (auto simp: extname_inv_def slice_def)
  qed
qed

lemma last_dot_less: "last_dot s = Some k \<Longrightarrow> k < length s"
  by (induction s arbitrary: k) (auto split: option.splits if_splits)

lemma last_dot_append:
  "CHR ''.'' \<notin> set t \<Longrightarrow> last_dot (b @ CHR ''.'' # t) = Some (length b)"
proof (induction b)
  case Nil
  have "last_dot t = None" using Nil by (induction t) (auto split: option.splits)
  then show ?case by simp
next
  case (Cons c b)
  then show ?case by simp
qed

lemma extname_eno_iff:
  assumes "CHR ''/'' \<notin> set file"
  shows "extname file = ''.eno'' \<longleftrightarrow> (\<exists>base. base \<noteq> [] \<and> file = base @ ''.eno'')"
proof
  assume e: "extname file = ''.eno''"
  then obtain k where k: "last_dot file = Some k" "k \<noteq> 0" "drop k file = ''.eno''"
    using extname_closed_form [OF assms] by (auto split: option.splits if_splits)
  from k(1) have "k < length file" by (rule last_dot_less)
  with k(2) have "take k file \<noteq> []" by auto
  moreover have "file = take k file @ ''.eno''" using k(3) by (metis append_take_drop_id)
  ultimately show "\<exists>base. base \<noteq> [] \<and> file = base @ ''.eno''" by blast
next
  assume "\<exists>base. base \<noteq> [] \<and> file = base @ ''.eno''"
  then obtain base where b: "base \<noteq> []" "file = base @ ''.eno''" by blast
  have "last_dot file = Some (length base)"
    unfolding b(2) by (rule last_dot_append [of "''eno''" base, simplified])
  with b show "extname file = ''.eno''"
    using extname_closed_form [OF assms] by simp
qed

text \<open>
  C10. For every file name, \<open>isSpecFile\<close> returns true if and only if \<open>path.extname\<close> of the
  name is exactly \<open>.eno\<close>. The bare dot-file \<open>.eno\<close> has the empty extension, so it is not a
  spec file, whereas \<open>advertising.eno\<close> is one. For a name without a slash, as a
  directory listing gives them, the extension is \<open>.eno\<close> exactly when the name is a
  non-empty base name followed by \<open>.eno\<close>.
\<close>

theorem isSpecFile_iff_extension_eno:
  "(isSpecFile file \<longleftrightarrow> extname file = ''.eno'')
   \<and> extname ''.eno'' = []
   \<and> \<not> isSpecFile ''.eno''
   \<and> isSpecFile ''advertising.eno''
   \<and> (CHR ''/'' \<notin> set file \<longrightarrow>
        (isSpecFile file \<longleftrightarrow> (\<exists>base. base \<noteq> [] \<and> file = base @ ''.eno'')))"
proof -
  have a: "isSpecFile file \<longleftrightarrow> extname file = ''.eno''"
    unfolding isSpecFile_def SPEC_FILE_EXTENSION_def by (rule refl)
  have b: "\<not> isSpecFile ''.eno''"
    unfolding isSpecFile_def SPEC_FILE_EXTENSION_def extname_dotfile by simp
  have c: "isSpecFile ''advertising.eno''"
    unfolding isSpecFile_def SPEC_FILE_EXTENSION_def extname_named_file by (rule refl)
  have d: "CHR ''/'' \<notin> set file \<longrightarrow>
        (isSpecFile file \<longleftrightarrow> (\<exists>base. base \<noteq> [] \<and> file = base @ ''.eno''))"
    unfolding a using extname_eno_iff [of "file"] by blast
  show ?thesis
    by (intro conjI a b c d extname_dotfile)
qed

theorem isSpecFile_iff_extension_eno_witness:
  "CHR ''/'' \<notin> set ''tracking.pixels.eno''
   \<and> ''tracking.pixels.eno'' = ''tracking.pixels'' @ ''.eno''
   \<and> isSpecFile ''tracking.pixels.eno''"
proof -
  have noslash: "CHR ''/'' \<notin> set ''tracking.pixels.eno''" by simp
  have split: "''tracking.pixels.eno'' = ''tracking.pixels'' @ ''.eno''" by simp
  then have "\<exists>base. base \<noteq> [] \<and> ''tracking.pixels.eno'' = base @ ''.eno''" by blast
  with noslash isSpecFile_iff_extension_eno [of "''tracking.pixels.eno''"]
  have "isSpecFile ''tracking.pixels.eno''" by blast
  with noslash split show ?thesis by blast
qed


section \<open>Properties of partition\<close>

lemma partition_loop_filter:
  "partition_loop pred arr matches rest =
     (matches @ filter pred arr, rest @ filter (\<lambda>x. \<not> pred x) arr)"
  by (induction arr arbitrary: matches rest) simp_all

lemma partition_ts_filter:
  "partition_ts arr pred = (filter pred arr, filter (\<lambda>x. \<not> pred x) arr)"
  by (simp add: partition_ts_def partition_loop_filter)

text \<open>
  C7. For every list and every predicate, the first list \<open>partition\<close> returns holds exactly
  the elements that satisfy the predicate, in their original order, and the second exactly
  those that do not, in their original order; the two outputs have no element in common
  and together hold every element of the input; their concatenation is a permutation of
  the input (equal as a multiset, hence of the same length).
\<close>

theorem partition_ts_splits:
  "fst (partition_ts arr pred) = filter pred arr
   \<and> snd (partition_ts arr pred) = filter (\<lambda>x. \<not> pred x) arr
   \<and> set (fst (partition_ts arr pred)) \<inter> set (snd (partition_ts arr pred)) = {}
   \<and> set (fst (partition_ts arr pred)) \<union> set (snd (partition_ts arr pred)) = set arr
   \<and> mset (fst (partition_ts arr pred) @ snd (partition_ts arr pred)) = mset arr
   \<and> length (fst (partition_ts arr pred)) + length (snd (partition_ts arr pred)) = length arr"
proof -
  have disjoint: "set (filter pred arr) \<inter> set (filter (\<lambda>x. \<not> pred x) arr) = {}"
    by auto
  have cover: "set (filter pred arr) \<union> set (filter (\<lambda>x. \<not> pred x) arr) = set arr"
    by auto
  have perm: "mset (filter pred arr @ filter (\<lambda>x. \<not> pred x) arr) = mset arr"
    by simp
  have len: "length (filter pred arr) + length (filter (\<lambda>x. \<not> pred x) arr) = length arr"
    by (rule sum_length_filter_compl)
  show ?thesis
    using disjoint cover perm len by (simp add: partition_ts_filter)
qed

end
